theory Spec2Isabelle
  imports Main "HOL-Library.Word"
begin

section \<open>JavaScript values\<close>

text \<open>
  The store holds values of TypeScript type \<open>any\<close>. They are modelled by the plain-data
  fragment of JavaScript: \<open>undefined\<close>, \<open>null\<close>, booleans, numbers, strings, arrays
  and object literals. A number is an integer from \<open>-2^53\<close> to \<open>2^53 - 1\<close>, read
  from a 54-bit word by \<open>sint\<close>: each of them is an exact double and \<open>String\<close>
  prints it in plain decimal digits. An object is the list of its own properties in
  insertion order. Function values, \<open>NaN\<close>, fractions and numbers beyond that range
  are outside the model.
\<close>

datatype jsval =
    JUndef
  | JNull
  | JBool bool
  | JNum "54 word"
  | JStr string
  | JArr "jsval list"
  | JObj "(string \<times> jsval) list"

text \<open>What a \<open>throw\<close> or a rejected promise carries.\<close>

datatype js_error =
    TypeError string
  | Error string
  | Thrown jsval

text \<open>How an awaited promise settles.\<close>

datatype 'a outcome = Resolved 'a | Rejected js_error

text \<open>\<open>ToBoolean\<close>, as used by \<open>if (data)\<close> and \<open>!x\<close>.\<close>

fun truthy :: "jsval \<Rightarrow> bool" where
  "truthy JUndef = False"
| "truthy JNull = False"
| "truthy (JBool b) = b"
| "truthy (JNum n) = (n \<noteq> 0)"
| "truthy (JStr s) = (s \<noteq> [])"
| "truthy (JArr xs) = True"
| "truthy (JObj fs) = True"

section \<open>Observable effects\<close>

text \<open>
  Everything an operation does beyond changing the store is recorded, in order, as a
  list of events: an invocation of the wrapped fetch function, a wait on
  \<open>setTimeout\<close> (in milliseconds), a call of a subscribed listener (named by its
  number) with the state it is given, and a \<open>console.error\<close> line with its
  arguments.
\<close>

datatype event =
    Invoke
  | Wait int
  | Notify nat "(string \<times> jsval) list"
  | ConsoleError string "js_error option"

fun is_Invoke :: "event \<Rightarrow> bool" where
  "is_Invoke Invoke = True"
| "is_Invoke _ = False"

fun is_Notify :: "event \<Rightarrow> bool" where
  "is_Notify (Notify l st) = True"
| "is_Notify _ = False"

definition invocations :: "event list \<Rightarrow> nat" where
  "invocations tr = length (filter is_Invoke tr)"

section \<open>retryFetch\<close>

text \<open>
  The wrapped function is an opaque asynchronous thunk. It is a function of an abstract
  world \<open>'w\<close> (the remote side) that settles and returns the next world. The
  \<open>while\<close> loop of \<open>retryFetch\<close> is the recursion on \<open>attempts\<close>; the final
  \<open>throw\<close> after the loop is the \<open>else\<close> branch.
\<close>

function retry_loop ::
  "('w \<Rightarrow> 'a outcome \<times> 'w) \<Rightarrow> int \<Rightarrow> int \<Rightarrow> int \<Rightarrow> 'w \<Rightarrow> 'a outcome \<times> 'w \<times> event list"
where
  "retry_loop fetchFunction retries delay attempts w =
     (if attempts < retries then
        (case fetchFunction w of
           (Resolved v, w') \<Rightarrow> (Resolved v, w', [Invoke])
         | (Rejected err, w') \<Rightarrow>
             (if attempts + 1 = retries then (Rejected err, w', [Invoke])
              else (case retry_loop fetchFunction retries delay (attempts + 1) w' of
                      (r, w'', tr) \<Rightarrow>
                        (r, w'', Invoke # Wait (delay * 2 ^ nat (attempts + 1)) # tr))))
      else (Rejected (Error ''Unexpected error in retryFetch''), w, []))"
  by pat_completeness auto
termination
  by (relation "measure (\<lambda>(f, retries, delay, attempts, w). nat (retries - attempts))") auto

declare retry_loop.simps [simp del]

definition retryFetch ::
  "('w \<Rightarrow> 'a outcome \<times> 'w) \<Rightarrow> int \<Rightarrow> int \<Rightarrow> 'w \<Rightarrow> 'a outcome \<times> 'w \<times> event list"
where
  "retryFetch fetchFunction retries delay w = retry_loop fetchFunction retries delay 0 w"

text \<open>The world after the first \<open>n\<close> calls of a thunk, and how call \<open>n + 1\<close> settles.\<close>

fun world_after :: "('w \<Rightarrow> 'a outcome \<times> 'w) \<Rightarrow> 'w \<Rightarrow> nat \<Rightarrow> 'w" where
  "world_after f w 0 = w"
| "world_after f w (Suc n) = world_after f (snd (f w)) n"

definition nth_call :: "('w \<Rightarrow> 'a outcome \<times> 'w) \<Rightarrow> 'w \<Rightarrow> nat \<Rightarrow> 'a outcome" where
  "nth_call f w n = fst (f (world_after f w n))"

fun is_Rejected :: "'a outcome \<Rightarrow> bool" where
  "is_Rejected (Rejected e) = True"
| "is_Rejected (Resolved v) = False"

text \<open>
  A trace observer for the backoff: the delay of the \<open>Wait\<close> event that stands
  immediately before the \<open>k\<close>-th \<open>Invoke\<close> event (counted from 1), if there is one.
\<close>

fun wait_before :: "event list \<Rightarrow> nat \<Rightarrow> int option" where
  "wait_before [] k = None"
| "wait_before (Invoke # tr) k = (if k \<le> 1 then None else wait_before tr (k - 1))"
| "wait_before (Wait d # Invoke # tr) k =
     (if k = 1 then Some d else wait_before (Invoke # tr) k)"
| "wait_before (e # tr) k = wait_before tr k"

section \<open>String conversion, property access and object spread\<close>

text \<open>Decimal digits of a natural number, as \<open>String(n)\<close> prints an integer.\<close>

fun show_nat :: "nat \<Rightarrow> string" where
  "show_nat n =
     (if n < 10 then [''0123456789'' ! n]
      else show_nat (n div 10) @ [''0123456789'' ! (n mod 10)])"

declare show_nat.simps [simp del]

definition show_int :: "int \<Rightarrow> string" where
  "show_int i = (if i < 0 then ''-'' @ show_nat (nat (- i)) else show_nat (nat i))"

fun join_comma :: "string list \<Rightarrow> string" where
  "join_comma [] = []"
| "join_comma [s] = s"
| "join_comma (s # t # ss) = s @ '','' @ join_comma (t # ss)"

text \<open>
  \<open>String(v)\<close>. An array prints its elements joined by commas, with \<open>null\<close> and
  \<open>undefined\<close> elements empty; an object literal prints \<open>[object Object]\<close>.
\<close>

fun js_String :: "jsval \<Rightarrow> string" where
  "js_String JUndef = ''undefined''"
| "js_String JNull = ''null''"
| "js_String (JBool b) = (if b then ''true'' else ''false'')"
| "js_String (JNum n) = show_int (sint n)"
| "js_String (JStr s) = s"
| "js_String (JArr xs) =
     join_comma (map (\<lambda>x. if x = JUndef \<or> x = JNull then [] else js_String x) xs)"
| "js_String (JObj fs) = ''[object Object]''"

fun error_String :: "js_error \<Rightarrow> string" where
  "error_String (TypeError m) = ''TypeError: '' @ m"
| "error_String (Error m) = ''Error: '' @ m"
| "error_String (Thrown v) = js_String v"

text \<open>The index that a property name denotes in a sequence of the given length.\<close>

definition array_index :: "string \<Rightarrow> nat \<Rightarrow> nat option" where
  "array_index k len = find (\<lambda>i. show_nat i = k) [0..<len]"

text \<open>\<open>o[k]\<close> on an object literal: the own property, or \<open>undefined\<close>.\<close>

definition obj_get :: "(string \<times> jsval) list \<Rightarrow> string \<Rightarrow> jsval" where
  "obj_get fs k = (case map_of fs k of Some v \<Rightarrow> v | None \<Rightarrow> JUndef)"

text \<open>
  \<open>item[k]\<close> on any value. Reading a property of \<open>null\<close> or \<open>undefined\<close> throws a
  \<open>TypeError\<close> (the text of its message depends on the engine). Properties inherited
  from a prototype are outside the model.
\<close>

fun get_prop :: "jsval \<Rightarrow> string \<Rightarrow> js_error + jsval" where
  "get_prop JUndef k = Inl (TypeError (''Cannot read properties of undefined, reading '' @ k))"
| "get_prop JNull k = Inl (TypeError (''Cannot read properties of null, reading '' @ k))"
| "get_prop (JBool b) k = Inr JUndef"
| "get_prop (JNum n) k = Inr JUndef"
| "get_prop (JStr s) k =
     Inr (if k = ''length'' then JNum (of_nat (length s))
          else (case array_index k (length s) of Some i \<Rightarrow> JStr [s ! i] | None \<Rightarrow> JUndef))"
| "get_prop (JArr xs) k =
     Inr (if k = ''length'' then JNum (of_nat (length xs))
          else (case array_index k (length xs) of Some i \<Rightarrow> xs ! i | None \<Rightarrow> JUndef))"
| "get_prop (JObj fs) k = Inr (obj_get fs k)"

text \<open>The own enumerable properties that a spread \<open>...v\<close> copies.\<close>

fun own_props :: "jsval \<Rightarrow> (string \<times> jsval) list" where
  "own_props (JObj fs) = fs"
| "own_props (JArr xs) = map (\<lambda>i. (show_nat i, xs ! i)) [0..<length xs]"
| "own_props (JStr s) = map (\<lambda>i. (show_nat i, JStr [s ! i])) [0..<length s]"
| "own_props v = []"

text \<open>
  Assigning a property keeps the position of a name that is there and appends a new
  one; \<open>{ ...a, ...b }\<close> assigns the properties of \<open>b\<close>, in order, onto a copy of
  \<open>a\<close>.
\<close>

fun obj_set :: "string \<Rightarrow> jsval \<Rightarrow> (string \<times> jsval) list \<Rightarrow> (string \<times> jsval) list" where
  "obj_set k v [] = [(k, v)]"
| "obj_set k v ((k', v') # fs) =
     (if k' = k then (k, v) # fs else (k', v') # obj_set k v fs)"

definition obj_spread ::
  "(string \<times> jsval) list \<Rightarrow> (string \<times> jsval) list \<Rightarrow> (string \<times> jsval) list"
where
  "obj_spread a b = fold (\<lambda>(k, v). obj_set k v) b a"

text \<open>\<open>xs.map(f)\<close> with a callback that may throw: the first exception ends the map.\<close>

fun map_result :: "('a \<Rightarrow> js_error + 'b) \<Rightarrow> 'a list \<Rightarrow> js_error + 'b list" where
  "map_result f [] = Inr []"
| "map_result f (x # xs) =
     (case f x of
        Inl e \<Rightarrow> Inl e
      | Inr y \<Rightarrow> (case map_result f xs of Inl e \<Rightarrow> Inl e | Inr ys \<Rightarrow> Inr (y # ys)))"

fun is_Array :: "jsval \<Rightarrow> bool" where
  "is_Array (JArr xs) = True"
| "is_Array v = False"

fun elements :: "jsval \<Rightarrow> jsval list" where
  "elements (JArr xs) = xs"
| "elements v = []"

section \<open>The store\<close>

text \<open>
  A registered handler is an asynchronous function of one argument and a cache lifetime
  in milliseconds. The handler acts on the world only: it does not reach back into the
  store, and no other store operation runs between the start and the end of a call
  (each operation below is one uninterrupted step).
\<close>

record 'w APIHandler =
  fetchFunction :: "jsval \<Rightarrow> 'w \<Rightarrow> jsval outcome \<times> 'w"
  cacheDuration :: int

text \<open>
  A subscribed callback. The number is the identity of the function object; the
  function says whether the callback throws when it is called with a state. A callback
  does not reach back into the store.
\<close>

datatype listener =
  Listener (listener_id: nat) (throws: "(string \<times> jsval) list \<Rightarrow> js_error option")

text \<open>
  The fields of class \<open>Store\<close>. \<open>state\<close> is a plain object; \<open>cache\<close> and
  \<open>cacheExpiration\<close> are \<open>Map\<close>s; \<open>listeners\<close> keeps the insertion order of the
  \<open>Set\<close>. \<open>apiHandlers\<close> holds the handler objects that \<open>registerAPI\<close> has
  assigned; what the plain object inherits is \<open>inherited\<close> below.
\<close>

record 'w Store =
  state :: "(string \<times> jsval) list"
  listeners :: "listener list"
  cache :: "string \<rightharpoonup> jsval"
  apiHandlers :: "string \<rightharpoonup> 'w APIHandler"
  cacheExpiration :: "string \<rightharpoonup> int"

datatype http_method = GET | POST | PUT | DELETE

definition new_Store :: "(string \<times> jsval) list \<Rightarrow> 'w Store" where
  "new_Store initialState =
     \<lparr>state = initialState, listeners = [], cache = Map.empty,
      apiHandlers = Map.empty, cacheExpiration = Map.empty\<rparr>"

definition getState :: "'w Store \<Rightarrow> (string \<times> jsval) list" where
  "getState s = state s"

text \<open>
  \<open>listeners.forEach((callback) => callback(state))\<close>: the callbacks are called in
  insertion order, and the first exception ends the loop and is thrown on.
\<close>

fun notify_all :: "listener list \<Rightarrow> (string \<times> jsval) list \<Rightarrow> event list \<times> js_error option" where
  "notify_all [] st = ([], None)"
| "notify_all (callback # rest) st =
     (case throws callback st of
        Some err \<Rightarrow> ([Notify (listener_id callback) st], Some err)
      | None \<Rightarrow>
          (case notify_all rest st of
             (tr, thrown) \<Rightarrow> (Notify (listener_id callback) st # tr, thrown)))"

definition notifyListeners :: "'w Store \<Rightarrow> event list \<times> js_error option" where
  "notifyListeners s = notify_all (listeners s) (state s)"

text \<open>
  \<open>setState\<close> replaces the state and then notifies. It returns the store, the events
  and the exception that a listener threw, if one did: the state is replaced by then.
\<close>

definition setState ::
  "'w Store \<Rightarrow> (string \<times> jsval) list \<Rightarrow> 'w Store \<times> event list \<times> js_error option"
where
  "setState s newState =
     (let s' = s\<lparr>state := obj_spread (state s) newState\<rparr>
      in (s', notifyListeners s'))"

text \<open>\<open>clearCache(key?)\<close>: an absent key and the empty string are both falsy.\<close>

definition clearCache :: "'w Store \<Rightarrow> string option \<Rightarrow> 'w Store" where
  "clearCache s key =
     (case key of
        Some k \<Rightarrow>
          (if k \<noteq> [] then
             s\<lparr>cache := (cache s)(k := None),
               cacheExpiration := (cacheExpiration s)(k := None)\<rparr>
           else s\<lparr>cache := Map.empty, cacheExpiration := Map.empty\<rparr>)
      | None \<Rightarrow> s\<lparr>cache := Map.empty, cacheExpiration := Map.empty\<rparr>)"

text \<open>\<open>Set.add\<close> and \<open>Set.delete\<close>, by the identity of the callback.\<close>

definition subscribe :: "'w Store \<Rightarrow> listener \<Rightarrow> 'w Store" where
  "subscribe s callback =
     s\<lparr>listeners :=
         (if listener_id callback \<in> listener_id ` set (listeners s) then listeners s
          else listeners s @ [callback])\<rparr>"

definition unsubscribe :: "'w Store \<Rightarrow> listener \<Rightarrow> 'w Store" where
  "unsubscribe s callback =
     s\<lparr>listeners := filter (\<lambda>l. listener_id l \<noteq> listener_id callback) (listeners s)\<rparr>"

text \<open>
  \<open>registerAPI\<close>: an argument that is not a function is \<open>None\<close>; it is reported and
  nothing is registered. (Under the key \<open>__proto__\<close> the assignment makes the handler
  object the prototype of \<open>apiHandlers\<close>; a later read of \<open>apiHandlers["__proto__"]\<close>
  yields that object, as the map does.)
\<close>

definition registerAPI ::
  "'w Store \<Rightarrow> string \<Rightarrow> (jsval \<Rightarrow> 'w \<Rightarrow> jsval outcome \<times> 'w) option \<Rightarrow> int
   \<Rightarrow> 'w Store \<times> event list"
where
  "registerAPI s key fetchFunction' cacheDuration' =
     (case fetchFunction' of
        None \<Rightarrow> (s, [ConsoleError (''Invalid fetch function for key: '' @ key) None])
      | Some f \<Rightarrow>
          (s\<lparr>apiHandlers :=
               (apiHandlers s)(key \<mapsto> \<lparr>fetchFunction = f, cacheDuration = cacheDuration'\<rparr>)\<rparr>,
           []))"

definition createStore :: "'w Store \<Rightarrow> (string \<times> jsval) list \<Rightarrow> 'w Store" where
  "createStore s initialState = s\<lparr>state := initialState\<rparr>"

text \<open>
  \<open>apiHandlers\<close> is a plain object, so \<open>this.apiHandlers[key]\<close> for a key that was
  never registered still yields a truthy value when the key names a property of
  \<open>Object.prototype\<close>, or, once a handler object has become the prototype, one of that
  object's two fields (the function, or the lifetime when it is not 0). Such a value is
  not a handler: it has no \<open>fetchFunction\<close> and no \<open>cacheDuration\<close>.
\<close>

definition object_prototype_names :: "string list" where
  "object_prototype_names =
     [''constructor'', ''__proto__'', ''__defineGetter__'', ''__defineSetter__'',
      ''__lookupGetter__'', ''__lookupSetter__'', ''hasOwnProperty'', ''isPrototypeOf'',
      ''propertyIsEnumerable'', ''toLocaleString'', ''toString'', ''valueOf'']"

definition inherited :: "'w Store \<Rightarrow> string \<Rightarrow> bool" where
  "inherited s key =
     (key \<in> set object_prototype_names \<or>
      (case apiHandlers s ''__proto__'' of
         None \<Rightarrow> False
       | Some p \<Rightarrow> key = ''fetchFunction'' \<or> (key = ''cacheDuration'' \<and> cacheDuration p \<noteq> 0)))"

text \<open>
  The test at the head of \<open>fetchData\<close> for a \<open>GET\<close>: a value is cached, a timestamp
  is recorded, and the age is within \<open>apiHandlers[key]?.cacheDuration || 0\<close>. An
  inherited value has no \<open>cacheDuration\<close>, so its lifetime is 0 as for no value.
\<close>

definition lifetime :: "'w Store \<Rightarrow> string \<Rightarrow> int" where
  "lifetime s key =
     (case apiHandlers s key of
        None \<Rightarrow> 0
      | Some h \<Rightarrow> (if cacheDuration h \<noteq> 0 then cacheDuration h else 0))"

definition cache_hit :: "'w Store \<Rightarrow> string \<Rightarrow> int \<Rightarrow> bool" where
  "cache_hit s key now =
     (cache s key \<noteq> None \<and>
      (case cacheExpiration s key of
         None \<Rightarrow> False
       | Some cacheExpirationTime \<Rightarrow> now - cacheExpirationTime \<le> lifetime s key))"

text \<open>\<open>Map.get\<close>: \<open>undefined\<close> for a key that is not there.\<close>

definition cache_get :: "'w Store \<Rightarrow> string \<Rightarrow> jsval" where
  "cache_get s key = (case cache s key of Some v \<Rightarrow> v | None \<Rightarrow> JUndef)"

text \<open>The argument the handler is called with: the payload for a write, else the path.\<close>

definition handler_arg :: "http_method \<Rightarrow> jsval \<Rightarrow> jsval \<Rightarrow> jsval" where
  "handler_arg m payload urlPath =
     (if m = POST \<or> m = PUT \<or> m = DELETE then payload else urlPath)"

text \<open>
  The thunk that \<open>fetchData\<close> hands to \<open>retryFetch\<close>: the \<open>fetchFunction\<close>
  destructured from \<open>this.apiHandlers[key]\<close>, applied to the argument. Destructured
  from a value that is not a handler it is \<open>undefined\<close>, and the call throws.
\<close>

definition not_a_function :: "'w \<Rightarrow> jsval outcome \<times> 'w" where
  "not_a_function w = (Rejected (TypeError ''fetchFunction is not a function''), w)"

definition fetch_thunk :: "'w Store \<Rightarrow> string \<Rightarrow> jsval \<Rightarrow> 'w \<Rightarrow> jsval outcome \<times> 'w" where
  "fetch_thunk s key arg =
     (case apiHandlers s key of
        Some h \<Rightarrow> fetchFunction h arg
      | None \<Rightarrow> not_a_function)"

text \<open>
  \<open>fetchData(key, method, payload, urlPath, keepCache)\<close> at the time \<open>now\<close> that
  \<open>Date.now()\<close> reads on entry. It returns the value the promise resolves to, the
  store, the world and the events. The test \<open>!this.apiHandlers[key]\<close> holds when no
  handler is registered and nothing is inherited. \<open>retryFetch\<close> is called with its
  defaults, three tries and a base delay of 1000. The \<open>try\<close> encloses the cache
  writes and \<open>setState\<close>: an exception of a listener is caught after they are done.
\<close>

definition fetchData ::
  "'w Store \<Rightarrow> string \<Rightarrow> http_method \<Rightarrow> jsval \<Rightarrow> jsval \<Rightarrow> bool \<Rightarrow> int \<Rightarrow> 'w
   \<Rightarrow> jsval \<times> 'w Store \<times> 'w \<times> event list"
where
  "fetchData s key m payload urlPath keepCache now w =
     (if m = GET \<and> cache_hit s key now then (cache_get s key, s, w, [])
      else if apiHandlers s key = None \<and> \<not> inherited s key then
        (JNull, s, w, [ConsoleError (''No API registered for key: '' @ key) None])
      else
        (case retryFetch (fetch_thunk s key (handler_arg m payload urlPath)) 3 1000 w of
           (Rejected err, w', tr) \<Rightarrow>
             (JNull, s, w', tr @ [ConsoleError ''API call error:'' (Some err)])
         | (Resolved data, w', tr) \<Rightarrow>
             (if truthy data then
                (let s1 = (if keepCache then
                             s\<lparr>cache := (cache s)(key \<mapsto> data),
                               cacheExpiration := (cacheExpiration s)(key \<mapsto> now)\<rparr>
                           else s);
                     (s2, ntr, thrown) = setState s1 [(key, data)]
                 in (case thrown of
                       None \<Rightarrow> (data, s2, w', tr @ ntr)
                     | Some err \<Rightarrow>
                         (JNull, s2, w',
                          tr @ ntr @ [ConsoleError ''API call error:'' (Some err)])))
              else (data, s, w', tr))))"

text \<open>
  Whether a call of \<open>fetchData\<close> completes a successful fetch: it is not served from
  the cache, a handler is registered, and the retried call resolves.
\<close>

definition fetch_succeeds ::
  "'w Store \<Rightarrow> string \<Rightarrow> http_method \<Rightarrow> jsval \<Rightarrow> jsval \<Rightarrow> int \<Rightarrow> 'w \<Rightarrow> bool"
where
  "fetch_succeeds s key m payload urlPath now w =
     (\<not> (m = GET \<and> cache_hit s key now) \<and>
      (case apiHandlers s key of
         None \<Rightarrow> False
       | Some h \<Rightarrow>
           \<not> is_Rejected
               (fst (retryFetch (fetchFunction h (handler_arg m payload urlPath)) 3 1000 w))))"

text \<open>
  A cache entry in the sense of the specification's data model: for the key, the
  cached value together with the timestamp of its fetch.
\<close>

definition has_cache_entry :: "'w Store \<Rightarrow> string \<Rightarrow> bool" where
  "has_cache_entry s key = (cache s key \<noteq> None \<and> cacheExpiration s key \<noteq> None)"

section \<open>Local operations of the hook\<close>

text \<open>
  \<open>deleteItem\<close> and \<open>editItem\<close> of \<open>useStore\<close>, with the hook's \<open>key\<close> and
  \<open>idKey\<close> as arguments. \<open>deleteItem\<close> has no \<open>try\<close>: an exception of the filter
  callback or of a listener reaches the caller, and is the third component of the
  result. The callback of \<open>filter\<close> is \<open>keep_item\<close>: it pairs the item with the
  verdict.
\<close>

definition keep_item :: "string \<Rightarrow> jsval \<Rightarrow> jsval \<Rightarrow> js_error + (jsval \<times> bool)" where
  "keep_item idKey deleteItemId item =
     (case get_prop item idKey of
        Inl e \<Rightarrow> Inl e
      | Inr v \<Rightarrow> Inr (item, js_String v \<noteq> js_String deleteItemId))"

definition deleteItem ::
  "'w Store \<Rightarrow> string \<Rightarrow> string \<Rightarrow> jsval \<Rightarrow> 'w Store \<times> event list \<times> js_error option"
where
  "deleteItem s key idKey deleteItemId =
     (if \<not> truthy deleteItemId then (s, [], None)
      else
        (let currentData = obj_get (getState s) key in
         if is_Array currentData then
           (case map_result (keep_item idKey deleteItemId) (elements currentData) of
              Inl e \<Rightarrow> (s, [], Some e)
            | Inr kept \<Rightarrow> setState s [(key, JArr (map fst (filter snd kept)))])
         else setState s [(key, JArr [])]))"

record edit_result =
  status :: bool
  message :: string

text \<open>The callback of \<open>map\<close> in \<open>editItem\<close>.\<close>

definition edit_item :: "string \<Rightarrow> jsval \<Rightarrow> jsval \<Rightarrow> jsval \<Rightarrow> js_error + jsval" where
  "edit_item idKey editItemId updatedFields item =
     (case get_prop item idKey of
        Inl e \<Rightarrow> Inl e
      | Inr v \<Rightarrow>
          Inr (if js_String v = js_String editItemId
               then JObj (obj_spread (own_props item) (own_props updatedFields))
               else item))"

text \<open>
  The \<open>try\<close> of \<open>editItem\<close> encloses the map, \<open>store.setState\<close> and
  \<open>store.cache.set\<close>, in this order: an exception of a listener is caught after the
  state is replaced and before the cache is written.
\<close>

definition editItem ::
  "'w Store \<Rightarrow> string \<Rightarrow> string \<Rightarrow> jsval \<Rightarrow> jsval \<Rightarrow> edit_result \<times> 'w Store \<times> event list"
where
  "editItem s key idKey editItemId updatedFields =
     (if \<not> truthy (obj_get (state s) key) \<or> \<not> is_Array (obj_get (state s) key) then
        (\<lparr>status = False, message = ''No valid array found for key: '' @ key\<rparr>, s,
         [ConsoleError (''No valid array found in store for key: '' @ key) None])
      else
        (case map_result (edit_item idKey editItemId updatedFields)
                (elements (obj_get (state s) key)) of
           Inl e \<Rightarrow>
             (\<lparr>status = False, message = ''Error editing item: '' @ error_String e\<rparr>, s, [])
         | Inr updatedItems \<Rightarrow>
             (case setState s [(key, JArr updatedItems)] of
                (s1, tr, Some e) \<Rightarrow>
                  (\<lparr>status = False, message = ''Error editing item: '' @ error_String e\<rparr>,
                   s1, tr)
              | (s1, tr, None) \<Rightarrow>
                  (\<lparr>status = True, message = ''Item edited successfully''\<rparr>,
                   s1\<lparr>cache := (cache s1)(key \<mapsto> JArr updatedItems)\<rparr>, tr))))"


section \<open>Reachable stores\<close>

text \<open>
  The stores that the operations of the library build from the module's
  \<open>new Store({})\<close>. Two sets record the history: the keys for which a call of
  \<open>fetchData\<close> with \<open>keepCache\<close> true has completed a successful fetch, and the keys
  that \<open>editItem\<close> has edited with success.
\<close>

inductive reachable :: "'w Store \<Rightarrow> string set \<Rightarrow> string set \<Rightarrow> bool" where
  r_new: "reachable (new_Store []) {} {}"
| r_createStore: "reachable s F E \<Longrightarrow> reachable (createStore s initialState) F E"
| r_setState: "reachable s F E \<Longrightarrow> reachable (fst (setState s newState)) F E"
| r_clearCache: "reachable s F E \<Longrightarrow> reachable (clearCache s k) F E"
| r_subscribe: "reachable s F E \<Longrightarrow> reachable (subscribe s callback) F E"
| r_unsubscribe: "reachable s F E \<Longrightarrow> reachable (unsubscribe s callback) F E"
| r_registerAPI: "reachable s F E \<Longrightarrow> reachable (fst (registerAPI s key f d)) F E"
| r_fetchData:
    "reachable s F E \<Longrightarrow>
     reachable (fst (snd (fetchData s key m payload urlPath keepCache now w)))
       (if keepCache \<and> fetch_succeeds s key m payload urlPath now w then insert key F else F) E"
| r_deleteItem:
    "reachable s F E \<Longrightarrow> reachable (fst (deleteItem s key idKey deleteItemId)) F E"
| r_editItem:
    "reachable s F E \<Longrightarrow>
     reachable (fst (snd (editItem s key idKey editItemId updatedFields))) F
       (if status (fst (editItem s key idKey editItemId updatedFields)) then insert key E else E)"

section \<open>Empty results\<close>

text \<open>
  The specification speaks of an empty or null result where the source tests
  \<open>if (data)\<close>. This second predicate follows the specification's words, to be
  compared with \<open>truthy\<close>: \<open>null\<close>, \<open>undefined\<close>, the empty string, the empty
  sequence and the empty record.
\<close>

fun empty_or_null :: "jsval \<Rightarrow> bool" where
  "empty_or_null JUndef = True"
| "empty_or_null JNull = True"
| "empty_or_null (JStr s) = (s = [])"
| "empty_or_null (JArr xs) = (xs = [])"
| "empty_or_null (JObj fs) = (fs = [])"
| "empty_or_null v = False"

section \<open>Example handlers and stores\<close>

text \<open>
  A handler whose world counts its calls: it rejects the first \<open>failures\<close> calls and
  resolves with \<open>result\<close> from then on.
\<close>

definition flaky :: "nat \<Rightarrow> jsval \<Rightarrow> jsval \<Rightarrow> nat \<Rightarrow> jsval outcome \<times> nat" where
  "flaky failures result arg n =
     (if n < failures then Rejected (Error ''network down'') else Resolved result, Suc n)"

text \<open>The sequence of records of the specification's example.\<close>

definition items_AB :: jsval where
  "items_AB =
     JArr [JObj [(''id'', JNum 5), (''name'', JStr ''A'')],
           JObj [(''id'', JNum 7), (''name'', JStr ''B'')]]"

text \<open>
  The module's store after \<open>registerAPI("items", handler, 60000)\<close> and one
  \<open>subscribe\<close> of a callback that never throws, and the same store after a first read
  at time 1000.
\<close>

definition demo_store :: "nat \<Rightarrow> jsval \<Rightarrow> nat Store" where
  "demo_store failures result =
     subscribe
       (fst (registerAPI (new_Store []) ''items'' (Some (flaky failures result)) 60000))
       (Listener 0 (\<lambda>st. None))"

definition demo_read :: "nat \<Rightarrow> jsval \<Rightarrow> jsval \<times> nat Store \<times> nat \<times> event list" where
  "demo_read failures result =
     fetchData (demo_store failures result) ''items'' GET JNull JUndef True 1000 0"

text \<open>
  A store whose state is set by \<open>createStore\<close> and never fetched, and the local edit
  \<open>editItem(5, {name: "X"})\<close> of the hook for \<open>key = "items"\<close>, \<open>idKey = "id"\<close> on it.
\<close>

definition local_store :: "nat Store" where
  "local_store = createStore (demo_store 0 (JArr [])) [(''items'', items_AB)]"

definition items_XB :: jsval where
  "items_XB =
     JArr [JObj [(''id'', JNum 5), (''name'', JStr ''X'')],
           JObj [(''id'', JNum 7), (''name'', JStr ''B'')]]"

definition local_edit :: "edit_result \<times> nat Store \<times> event list" where
  "local_edit = editItem local_store ''items'' ''id'' (JNum 5) (JObj [(''name'', JStr ''X'')])"



section \<open>Properties\<close>

subsection \<open>The retry loop\<close>

lemma nth_call_0: "nth_call f w 0 = fst (f w)"
  by (simp add: nth_call_def)

lemma nth_call_Suc: "nth_call f w (Suc n) = nth_call f (snd (f w)) n"
  by (simp add: nth_call_def)

lemma invocations_simps [simp]:
  "invocations [] = 0"
  "invocations (Invoke # tr) = Suc (invocations tr)"
  "invocations (Wait d # tr) = invocations tr"
  "invocations (Notify l st # tr) = invocations tr"
  "invocations (ConsoleError m e # tr) = invocations tr"
  by (simp_all add: invocations_def)

lemma invocations_append [simp]: "invocations (tr @ tr') = invocations tr + invocations tr'"
  by (simp add: invocations_def)

lemma first_call_rejected:
  assumes "is_Rejected (nth_call f w 0)"
  obtains e w' where "f w = (Rejected e, w')"
proof -
  obtain r w' where fw: "f w = (r, w')" by (cases "f w") auto
  with assms have "is_Rejected r" by (simp add: nth_call_0)
  then obtain e where "r = Rejected e" by (cases r) auto
  with fw that show ?thesis by blast
qed

lemma retry_loop_succeeds:
  assumes "\<forall>i<n. is_Rejected (nth_call f w i)"
    and "nth_call f w n = Resolved v"
    and "a + int n < retries"
  shows "fst (retry_loop f retries delay a w) = Resolved v
       \<and> fst (snd (retry_loop f retries delay a w)) = world_after f w (Suc n)
       \<and> invocations (snd (snd (retry_loop f retries delay a w))) = Suc n"
  using assms
proof (induction n arbitrary: a w)
  case 0
  then obtain w' where fw: "f w = (Resolved v, w')"
    by (cases "f w") (simp add: nth_call_0)
  with 0 show ?case
    by (simp add: retry_loop.simps [of f retries delay a w])
next
  case (Suc n)
  from Suc.prems(1) have "is_Rejected (nth_call f w 0)" by blast
  then obtain e w' where fw: "f w = (Rejected e, w')"
    by (rule first_call_rejected)
  have rest: "\<forall>i<n. is_Rejected (nth_call f w' i)"
    using Suc.prems(1) fw by (auto simp: nth_call_Suc dest: spec [of _ "Suc _"])
  have last: "nth_call f w' n = Resolved v"
    using Suc.prems(2) fw by (simp add: nth_call_Suc)
  have bound: "(a + 1) + int n < retries"
    using Suc.prems(3) by simp
  note IH = Suc.IH [OF rest last bound]
  obtain r w'' tr where rec: "retry_loop f retries delay (a + 1) w' = (r, w'', tr)"
    by (cases "retry_loop f retries delay (a + 1) w'") auto
  from bound have "a < retries" "a + 1 \<noteq> retries" by simp_all
  with fw rec IH show ?case
    by (simp add: retry_loop.simps [of f retries delay a w])
qed

lemma retry_loop_exhausts:
  assumes "\<forall>i<n. is_Rejected (nth_call f w i)"
    and "a + int n = retries"
    and "0 < n"
  shows "fst (retry_loop f retries delay a w) = nth_call f w (n - 1)
       \<and> fst (snd (retry_loop f retries delay a w)) = world_after f w n
       \<and> invocations (snd (snd (retry_loop f retries delay a w))) = n"
  using assms
proof (induction n arbitrary: a w)
  case 0
  then show ?case by simp
next
  case (Suc n)
  from Suc.prems(1) have "is_Rejected (nth_call f w 0)" by blast
  then obtain e w' where fw: "f w = (Rejected e, w')"
    by (rule first_call_rejected)
  show ?case
  proof (cases n)
    case 0
    with Suc.prems fw show ?thesis
      by (simp add: retry_loop.simps [of f retries delay a w] nth_call_0)
  next
    case (Suc m)
    have rest: "\<forall>i<n. is_Rejected (nth_call f w' i)"
      using Suc.prems(1) fw by (auto simp: nth_call_Suc dest: spec [of _ "Suc _"])
    have bound: "(a + 1) + int n = retries"
      using Suc.prems(2) by simp
    have pos: "0 < n" using Suc by simp
    note IH = Suc.IH [OF rest bound pos]
    obtain r w'' tr where rec: "retry_loop f retries delay (a + 1) w' = (r, w'', tr)"
      by (cases "retry_loop f retries delay (a + 1) w'") auto
    from bound pos have "a < retries" "a + 1 \<noteq> retries" by simp_all
    with fw rec IH Suc show ?thesis
      by (simp add: retry_loop.simps [of f retries delay a w] nth_call_Suc)
  qed
qed

text \<open>
  C2. For every \<open>maxAttempts \<ge> 1\<close> and every \<open>N\<close> with \<open>1 \<le> N \<le> maxAttempts\<close>: if
  the wrapped function fails on its first \<open>N - 1\<close> calls and succeeds on call \<open>N\<close>,
  \<open>retryFetch\<close> returns the success value (after exactly \<open>N\<close> invocations); if it fails
  on every call, \<open>retryFetch\<close> invokes it exactly \<open>maxAttempts\<close> times and then rejects
  with the failure of the last call.
\<close>

theorem retryFetch_retries:
  assumes "1 \<le> maxAttempts" and "1 \<le> N" and "N \<le> maxAttempts"
  shows "((\<forall>i<N - 1. is_Rejected (nth_call fn w i)) \<and> nth_call fn w (N - 1) = Resolved v \<longrightarrow>
            fst (retryFetch fn (int maxAttempts) delay w) = Resolved v \<and>
            invocations (snd (snd (retryFetch fn (int maxAttempts) delay w))) = N)
       \<and> ((\<forall>i<maxAttempts. is_Rejected (nth_call fn w i)) \<longrightarrow>
            is_Rejected (fst (retryFetch fn (int maxAttempts) delay w)) \<and>
            fst (retryFetch fn (int maxAttempts) delay w) = nth_call fn w (maxAttempts - 1) \<and>
            invocations (snd (snd (retryFetch fn (int maxAttempts) delay w))) = maxAttempts)"
proof (intro conjI impI)
  assume h: "(\<forall>i<N - 1. is_Rejected (nth_call fn w i)) \<and> nth_call fn w (N - 1) = Resolved v"
  from assms have b: "0 + int (N - 1) < int maxAttempts" by simp
  from retry_loop_succeeds [OF conjunct1 [OF h] conjunct2 [OF h] b, of delay] assms(2)
  show "fst (retryFetch fn (int maxAttempts) delay w) = Resolved v"
    and "invocations (snd (snd (retryFetch fn (int maxAttempts) delay w))) = N"
    by (simp_all add: retryFetch_def)
next
  assume h: "\<forall>i<maxAttempts. is_Rejected (nth_call fn w i)"
  from assms(1) have b: "0 + int maxAttempts = int maxAttempts" and p: "0 < maxAttempts"
    by simp_all
  from h p have last: "is_Rejected (nth_call fn w (maxAttempts - 1))" by simp
  from retry_loop_exhausts [OF h b p, of delay] last
  show "is_Rejected (fst (retryFetch fn (int maxAttempts) delay w))"
    and "fst (retryFetch fn (int maxAttempts) delay w) = nth_call fn w (maxAttempts - 1)"
    and "invocations (snd (snd (retryFetch fn (int maxAttempts) delay w))) = maxAttempts"
    by (simp_all add: retryFetch_def)
qed

lemma world_after_flaky: "world_after (flaky m r x) w n = w + n"
  by (induction n arbitrary: w) (simp_all add: flaky_def)

theorem retryFetch_retries_witness:
  "fst (retryFetch (flaky 1 (JNum 7) JUndef) (int 3) 1000 0) = Resolved (JNum 7)
   \<and> invocations (snd (snd (retryFetch (flaky 1 (JNum 7) JUndef) (int 3) 1000 0))) = 2
   \<and> is_Rejected (fst (retryFetch (flaky 5 (JNum 7) JUndef) (int 3) 1000 0))
   \<and> invocations (snd (snd (retryFetch (flaky 5 (JNum 7) JUndef) (int 3) 1000 0))) = 3"
proof -
  have a: "(1::nat) \<le> 3" and b: "(1::nat) \<le> 2" and c: "(2::nat) \<le> 3" by simp_all
  have ok: "(\<forall>i<2 - 1. is_Rejected (nth_call (flaky 1 (JNum 7) JUndef) 0 i))
            \<and> nth_call (flaky 1 (JNum 7) JUndef) 0 (2 - 1) = Resolved (JNum 7)"
    by (simp add: nth_call_def world_after_flaky) (simp add: flaky_def)
  have bad: "\<forall>i<3. is_Rejected (nth_call (flaky 5 (JNum 7) JUndef) 0 i)"
    by (simp add: nth_call_def world_after_flaky) (simp add: flaky_def)
  from retryFetch_retries [OF a b c, of "flaky 1 (JNum 7) JUndef" 0 "JNum 7" 1000] ok
    retryFetch_retries [OF a b c, of "flaky 5 (JNum 7) JUndef" 0 "JNum 7" 1000] bad
  show ?thesis by blast
qed

text \<open>
  C4, as the claim states it: called with \<open>maxAttempts = 0\<close> the wrapper still
  invokes the wrapped function once and propagates its failure. The loop test
  \<open>attempts < retries\<close> fails on entry: the function, which would reject with
  \<open>network down\<close>, is not invoked, and the \<open>throw\<close> after the loop rejects with the
  wrapper's own error.
\<close>

theorem retryFetch_zero_attempts_counterexample:
  "invocations (snd (snd (retryFetch (flaky 5 (JNum 7) JUndef) 0 1000 0))) = 0
   \<and> fst (retryFetch (flaky 5 (JNum 7) JUndef) 0 1000 0)
       = Rejected (Error ''Unexpected error in retryFetch'')
   \<and> fst (flaky 5 (JNum 7) JUndef 0) = Rejected (Error ''network down'')"
  by (simp add: retryFetch_def retry_loop.simps flaky_def)

text \<open>
  C4, amended. Called with \<open>maxAttempts = 0\<close> (or less) the wrapper does not invoke
  the wrapped function, waits for nothing and rejects with
  \<open>Unexpected error in retryFetch\<close>; it makes at least one attempt when
  \<open>maxAttempts\<close> is 1 or more.
\<close>

theorem retryFetch_attempt_floor:
  "(maxAttempts \<le> 0 \<longrightarrow>
      retryFetch fn maxAttempts delay w
        = (Rejected (Error ''Unexpected error in retryFetch''), w, []))
   \<and> (1 \<le> maxAttempts \<longrightarrow>
      1 \<le> invocations (snd (snd (retryFetch fn maxAttempts delay w))))"
proof (intro conjI impI)
  assume "maxAttempts \<le> 0"
  then show "retryFetch fn maxAttempts delay w
        = (Rejected (Error ''Unexpected error in retryFetch''), w, [])"
    by (simp add: retryFetch_def retry_loop.simps [of fn maxAttempts delay 0 w])
next
  assume "1 \<le> maxAttempts"
  then show "1 \<le> invocations (snd (snd (retryFetch fn maxAttempts delay w)))"
    by (cases "fn w"; cases "fst (fn w)")
       (auto simp: retryFetch_def retry_loop.simps [of fn maxAttempts delay 0 w]
          split: prod.splits)
qed

theorem retryFetch_attempt_floor_witness:
  "retryFetch (flaky 5 (JNum 7) JUndef) 0 1000 0
     = (Rejected (Error ''Unexpected error in retryFetch''), 0, [])
   \<and> 1 \<le> invocations (snd (snd (retryFetch (flaky 5 (JNum 7) JUndef) 1 1000 0)))"
  using retryFetch_attempt_floor [of 0 "flaky 5 (JNum 7) JUndef" 1000 0]
    retryFetch_attempt_floor [of 1 "flaky 5 (JNum 7) JUndef" 1000 0]
  by simp

subsection \<open>Backoff\<close>

lemma retry_loop_starts_Invoke:
  "a < retries \<Longrightarrow> \<exists>tr. snd (snd (retry_loop f retries delay a w)) = Invoke # tr"
  by (cases "f w"; cases "fst (f w)")
     (auto simp: retry_loop.simps [of f retries delay a w] split: prod.splits)

lemma wait_before_retry_loop:
  "0 \<le> a \<Longrightarrow> 2 \<le> k \<Longrightarrow> k \<le> invocations (snd (snd (retry_loop f retries delay a w)))
   \<Longrightarrow> wait_before (snd (snd (retry_loop f retries delay a w))) k
        = Some (delay * 2 ^ (nat a + k - 1))"
proof (induction f retries delay a w arbitrary: k rule: retry_loop.induct)
  case (1 f retries delay a w)
  show ?case
  proof (cases "a < retries")
    case False
    with "1.prems" show ?thesis
      by (simp add: retry_loop.simps [of f retries delay a w])
  next
    case lt: True
    obtain r w' where fw: "f w = (r, w')" by (cases "f w") auto
    show ?thesis
    proof (cases r)
      case (Resolved v)
      with fw lt "1.prems" show ?thesis
        by (simp add: retry_loop.simps [of f retries delay a w])
    next
      case (Rejected e)
      show ?thesis
      proof (cases "a + 1 = retries")
        case True
        with Rejected fw lt "1.prems" show ?thesis
          by (simp add: retry_loop.simps [of f retries delay a w])
      next
        case ne: False
        obtain r' w'' tr where rec: "retry_loop f retries delay (a + 1) w' = (r', w'', tr)"
          by (cases "retry_loop f retries delay (a + 1) w'") auto
        have whole: "snd (snd (retry_loop f retries delay a w))
                     = Invoke # Wait (delay * 2 ^ nat (a + 1)) # tr"
          using Rejected fw lt ne rec
          by (simp add: retry_loop.simps [of f retries delay a w])
        from lt ne have "a + 1 < retries" by simp
        from retry_loop_starts_Invoke [OF this, of f delay w'] rec
        obtain tr' where tr: "tr = Invoke # tr'" by auto
        show ?thesis
        proof (cases "k = 2")
          case True
          with whole tr "1.prems"(1) show ?thesis
            by (simp add: nat_add_distrib)
        next
          case False
          with "1.prems"(2) have k3: "2 \<le> k - 1" by simp
          have cnt: "k - 1 \<le> invocations (snd (snd (retry_loop f retries delay (a + 1) w')))"
            using "1.prems"(3) whole rec by simp
          have a0: "0 \<le> a + 1" using "1.prems"(1) by simp
          have IH: "wait_before tr (k - 1) = Some (delay * 2 ^ (nat (a + 1) + (k - 1) - 1))"
            using "1.IH" [OF lt fw [symmetric] _ ne a0 k3 cnt] Rejected rec by simp
          have e: "nat (a + 1) + (k - 1) - 1 = nat a + k - 1"
            using "1.prems"(1) k3 by (simp add: nat_add_distrib)
          have step: "wait_before (Invoke # Wait (delay * 2 ^ nat (a + 1)) # tr) k
                      = wait_before tr (k - 1)"
          proof -
            from k3 have "\<not> k \<le> 1" "k - 1 \<noteq> 1" by arith+
            with tr show ?thesis by simp
          qed
          show ?thesis
            unfolding whole step IH e ..
        qed
      qed
    qed
  qed
qed

text \<open>
  C5, as the claim states it: the wait immediately before attempt \<open>k\<close> is
  \<open>baseDelay * 2^k\<close>. A function that always fails, three tries and a base delay of
  1000: the wait before attempt 2 is 2000, not 4000.
\<close>

theorem retryFetch_backoff_counterexample:
  "wait_before (snd (snd (retryFetch (flaky 5 (JNum 7) JUndef) 3 1000 0))) 2 = Some 2000
   \<and> (2000 :: int) \<noteq> 1000 * 2 ^ 2"
  by (simp add: retryFetch_def retry_loop.simps flaky_def)

text \<open>
  C5, amended. For every attempt number \<open>k \<ge> 2\<close> that a run of \<open>retryFetch\<close> makes,
  the wait immediately before attempt \<open>k\<close> is \<open>baseDelay * 2^(k - 1)\<close>: the exponent
  is the number of failed attempts so far.
\<close>

theorem retryFetch_backoff:
  assumes "2 \<le> k"
    and "k \<le> invocations (snd (snd (retryFetch fn retries delay w)))"
  shows "wait_before (snd (snd (retryFetch fn retries delay w))) k = Some (delay * 2 ^ (k - 1))"
  using wait_before_retry_loop [of 0 k fn retries delay w] assms
  by (simp add: retryFetch_def)

theorem retryFetch_backoff_witness:
  "invocations (snd (snd (retryFetch (flaky 5 (JNum 7) JUndef) 3 1000 0))) = 3
   \<and> wait_before (snd (snd (retryFetch (flaky 5 (JNum 7) JUndef) 3 1000 0))) 3
       = Some (1000 * 2 ^ (3 - 1))"
proof -
  have n: "invocations (snd (snd (retryFetch (flaky 5 (JNum 7) JUndef) 3 1000 0))) = 3"
    by (simp add: retryFetch_def retry_loop.simps flaky_def)
  have a: "(2::nat) \<le> 3" by simp
  have b: "3 \<le> invocations (snd (snd (retryFetch (flaky 5 (JNum 7) JUndef) 3 1000 0)))"
    by (simp add: n)
  from retryFetch_backoff [OF a b] n show ?thesis by blast
qed

subsection \<open>fetchData\<close>

lemma retry_loop_no_Notify:
  "filter is_Notify (snd (snd (retry_loop f retries delay a w))) = []"
proof (induction f retries delay a w rule: retry_loop.induct)
  case (1 f retries delay a w)
  show ?case
  proof (cases "a < retries")
    case False
    then show ?thesis by (simp add: retry_loop.simps [of f retries delay a w])
  next
    case lt: True
    obtain r w' where fw: "f w = (r, w')" by (cases "f w") auto
    show ?thesis
    proof (cases r)
      case (Resolved v)
      with fw lt show ?thesis by (simp add: retry_loop.simps [of f retries delay a w])
    next
      case (Rejected e)
      show ?thesis
      proof (cases "a + 1 = retries")
        case True
        with Rejected fw lt show ?thesis
          by (simp add: retry_loop.simps [of f retries delay a w])
      next
        case False
        obtain r' w'' tr where rec: "retry_loop f retries delay (a + 1) w' = (r', w'', tr)"
          by (cases "retry_loop f retries delay (a + 1) w'") auto
        with "1.IH" [OF lt fw [symmetric] _ False] Rejected fw lt False show ?thesis
          by (simp add: retry_loop.simps [of f retries delay a w])
      qed
    qed
  qed
qed

lemma retryFetch_no_Notify:
  "retryFetch f retries delay w = (r, w', tr) \<Longrightarrow> filter is_Notify tr = []"
  using retry_loop_no_Notify [of f retries delay 0 w] by (simp add: retryFetch_def)

lemma retryFetch_invoked:
  "0 < retries \<Longrightarrow> retryFetch f retries delay w = (r, w', tr) \<Longrightarrow> 1 \<le> invocations tr"
  using retry_loop_starts_Invoke [of 0 retries f delay w] by (auto simp: retryFetch_def)

lemma retryFetch_not_a_function:
  "retryFetch not_a_function 3 1000 w =
     (Rejected (TypeError ''fetchFunction is not a function''), w,
      [Invoke, Wait 2000, Invoke, Wait 4000, Invoke])"
  by (simp add: retryFetch_def retry_loop.simps not_a_function_def)

lemma notify_all_trace [simp]:
  "invocations (fst (notify_all ls st)) = 0"
  "filter is_Invoke (fst (notify_all ls st)) = []"
  by (induction ls) (auto simp: invocations_def split: option.splits prod.splits)


lemma setState_fields [simp]:
  "cache (fst (setState s n)) = cache s"
  "cacheExpiration (fst (setState s n)) = cacheExpiration s"
  "apiHandlers (fst (setState s n)) = apiHandlers s"
  "listeners (fst (setState s n)) = listeners s"
  "state (fst (setState s n)) = obj_spread (state s) n"
  "snd (setState s n) = notify_all (listeners s) (obj_spread (state s) n)"
  by (simp_all add: setState_def Let_def notifyListeners_def)

text \<open>The six ways \<open>fetchData\<close> returns.\<close>

lemma fetchData_cases:
  fixes s :: "'w Store"
  obtains
    (hit) "m = GET" "cache_hit s key now"
      "fetchData s key m payload urlPath keepCache now w = (cache_get s key, s, w, [])"
  | (no_api) "\<not> (m = GET \<and> cache_hit s key now)" "apiHandlers s key = None"
      "\<not> inherited s key"
      "fetchData s key m payload urlPath keepCache now w =
         (JNull, s, w, [ConsoleError (''No API registered for key: '' @ key) None])"
  | (failed) err w' tr where "\<not> (m = GET \<and> cache_hit s key now)"
      "apiHandlers s key \<noteq> None \<or> inherited s key"
      "retryFetch (fetch_thunk s key (handler_arg m payload urlPath)) 3 1000 w
         = (Rejected err, w', tr)"
      "fetchData s key m payload urlPath keepCache now w =
         (JNull, s, w', tr @ [ConsoleError ''API call error:'' (Some err)])"
  | (falsy) data w' tr where "\<not> (m = GET \<and> cache_hit s key now)"
      "apiHandlers s key \<noteq> None \<or> inherited s key"
      "retryFetch (fetch_thunk s key (handler_arg m payload urlPath)) 3 1000 w
         = (Resolved data, w', tr)"
      "\<not> truthy data"
      "fetchData s key m payload urlPath keepCache now w = (data, s, w', tr)"
  | (stored) data w' tr s1 where "\<not> (m = GET \<and> cache_hit s key now)"
      "apiHandlers s key \<noteq> None \<or> inherited s key"
      "retryFetch (fetch_thunk s key (handler_arg m payload urlPath)) 3 1000 w
         = (Resolved data, w', tr)"
      "truthy data"
      "s1 = (if keepCache then
               s\<lparr>cache := (cache s)(key \<mapsto> data),
                 cacheExpiration := (cacheExpiration s)(key \<mapsto> now)\<rparr>
             else s)"
      "snd (snd (setState s1 [(key, data)])) = None"
      "fetchData s key m payload urlPath keepCache now w =
         (data, fst (setState s1 [(key, data)]), w', tr @ fst (snd (setState s1 [(key, data)])))"
  | (listener_threw) data w' tr s1 err where "\<not> (m = GET \<and> cache_hit s key now)"
      "apiHandlers s key \<noteq> None \<or> inherited s key"
      "retryFetch (fetch_thunk s key (handler_arg m payload urlPath)) 3 1000 w
         = (Resolved data, w', tr)"
      "truthy data"
      "s1 = (if keepCache then
               s\<lparr>cache := (cache s)(key \<mapsto> data),
                 cacheExpiration := (cacheExpiration s)(key \<mapsto> now)\<rparr>
             else s)"
      "snd (snd (setState s1 [(key, data)])) = Some err"
      "fetchData s key m payload urlPath keepCache now w =
         (JNull, fst (setState s1 [(key, data)]), w',
          tr @ fst (snd (setState s1 [(key, data)]))
             @ [ConsoleError ''API call error:'' (Some err)])"
proof (cases "m = GET \<and> cache_hit s key now")
  case True
  then have "fetchData s key m payload urlPath keepCache now w = (cache_get s key, s, w, [])"
    by (simp add: fetchData_def)
  with True hit show ?thesis by blast
next
  case miss: False
  show ?thesis
  proof (cases "apiHandlers s key = None \<and> \<not> inherited s key")
    case True
    with miss have "fetchData s key m payload urlPath keepCache now w =
         (JNull, s, w, [ConsoleError (''No API registered for key: '' @ key) None])"
      by (auto simp: fetchData_def)
    with miss True no_api show ?thesis by blast
  next
    case api: False
    then have api': "apiHandlers s key \<noteq> None \<or> inherited s key" by auto
    obtain r w' tr where
      rf: "retryFetch (fetch_thunk s key (handler_arg m payload urlPath)) 3 1000 w = (r, w', tr)"
      by (cases "retryFetch (fetch_thunk s key (handler_arg m payload urlPath)) 3 1000 w") auto
    show ?thesis
    proof (cases r)
      case (Rejected err)
      with miss api rf have "fetchData s key m payload urlPath keepCache now w =
         (JNull, s, w', tr @ [ConsoleError ''API call error:'' (Some err)])"
        by (auto simp: fetchData_def)
      with miss api' rf Rejected failed show ?thesis by blast
    next
      case (Resolved data)
      show ?thesis
      proof (cases "truthy data")
        case False
        with miss api rf Resolved
        have "fetchData s key m payload urlPath keepCache now w = (data, s, w', tr)"
          by (auto simp: fetchData_def)
        with miss api' rf Resolved False falsy show ?thesis by blast
      next
        case True
        define s1 where "s1 = (if keepCache then
               s\<lparr>cache := (cache s)(key \<mapsto> data),
                 cacheExpiration := (cacheExpiration s)(key \<mapsto> now)\<rparr>
             else s)"
        obtain s2 ntr thrown where st: "setState s1 [(key, data)] = (s2, ntr, thrown)"
          by (cases "setState s1 [(key, data)]") auto
        show ?thesis
        proof (cases thrown)
          case None
          with miss api rf Resolved True st
          have "fetchData s key m payload urlPath keepCache now w =
                  (data, fst (setState s1 [(key, data)]), w',
                   tr @ fst (snd (setState s1 [(key, data)])))"
            by (auto simp: fetchData_def s1_def Let_def)
          moreover from st None have "snd (snd (setState s1 [(key, data)])) = None" by simp
          ultimately show ?thesis
            using miss api' rf Resolved True s1_def stored by blast
        next
          case (Some err)
          with miss api rf Resolved True st
          have "fetchData s key m payload urlPath keepCache now w =
                  (JNull, fst (setState s1 [(key, data)]), w',
                   tr @ fst (snd (setState s1 [(key, data)]))
                      @ [ConsoleError ''API call error:'' (Some err)])"
            by (auto simp: fetchData_def s1_def Let_def)
          moreover from st Some have "snd (snd (setState s1 [(key, data)])) = Some err"
            by simp
          ultimately show ?thesis
            using miss api' rf Resolved True s1_def listener_threw by blast
        qed
      qed
    qed
  qed
qed


lemma fetchData_miss_invokes:
  assumes "apiHandlers s key \<noteq> None \<or> inherited s key"
    and "\<not> (m = GET \<and> cache_hit s key now)"
  shows "1 \<le> invocations (snd (snd (snd (fetchData s key m payload urlPath keepCache now w))))"
proof (rule fetchData_cases [of m s key now payload urlPath keepCache w])
  fix err w' tr
  assume "retryFetch (fetch_thunk s key (handler_arg m payload urlPath)) 3 1000 w
            = (Rejected err, w', tr)"
    and "fetchData s key m payload urlPath keepCache now w =
         (JNull, s, w', tr @ [ConsoleError ''API call error:'' (Some err)])"
  with retryFetch_invoked [of 3 _ 1000 w "Rejected err" w' tr] show ?thesis by simp
next
  fix data w' tr
  assume "retryFetch (fetch_thunk s key (handler_arg m payload urlPath)) 3 1000 w
            = (Resolved data, w', tr)"
    and "fetchData s key m payload urlPath keepCache now w = (data, s, w', tr)"
  with retryFetch_invoked [of 3 _ 1000 w "Resolved data" w' tr] show ?thesis by simp
next
  fix data w' tr and s1 :: "'a Store"
  assume "retryFetch (fetch_thunk s key (handler_arg m payload urlPath)) 3 1000 w
            = (Resolved data, w', tr)"
    and "fetchData s key m payload urlPath keepCache now w =
         (data, fst (setState s1 [(key, data)]), w', tr @ fst (snd (setState s1 [(key, data)])))"
  with retryFetch_invoked [of 3 _ 1000 w "Resolved data" w' tr] show ?thesis by simp
next
  fix data w' tr err and s1 :: "'a Store"
  assume "retryFetch (fetch_thunk s key (handler_arg m payload urlPath)) 3 1000 w
            = (Resolved data, w', tr)"
    and "fetchData s key m payload urlPath keepCache now w =
         (JNull, fst (setState s1 [(key, data)]), w',
          tr @ fst (snd (setState s1 [(key, data)]))
             @ [ConsoleError ''API call error:'' (Some err)])"
  with retryFetch_invoked [of 3 _ 1000 w "Resolved data" w' tr] show ?thesis by simp
qed (use assms in auto)




text \<open>
  C3. A handler is registered for \<open>key\<close>, the call is not served from the cache, and
  the handler fails on each of the three attempts. Then \<open>fetchData\<close> returns \<open>null\<close>
  after exactly three invocations, the store is the store before the call (so the state
  at \<open>key\<close>, the cache entry and its timestamp are), and no listener is notified.
\<close>

theorem fetchData_failure_keeps_store:
  assumes "apiHandlers s key = Some h"
    and "\<not> (m = GET \<and> cache_hit s key now)"
    and "\<forall>i<3. is_Rejected (nth_call (fetchFunction h (handler_arg m payload urlPath)) w i)"
  shows "fst (fetchData s key m payload urlPath keepCache now w) = JNull
       \<and> fst (snd (fetchData s key m payload urlPath keepCache now w)) = s
       \<and> invocations (snd (snd (snd (fetchData s key m payload urlPath keepCache now w)))) = 3
       \<and> filter is_Notify (snd (snd (snd (fetchData s key m payload urlPath keepCache now w))))
           = []"
proof -
  let ?f = "fetchFunction h (handler_arg m payload urlPath)"
  obtain r w' tr where rf: "retryFetch ?f 3 1000 w = (r, w', tr)"
    by (cases "retryFetch ?f 3 1000 w") auto
  have "0 + int 3 = 3" and "0 < (3::nat)" by simp_all
  from retry_loop_exhausts [OF assms(3) this, of 1000] assms(3) rf
  have rej: "is_Rejected r" and n: "invocations tr = 3"
    by (simp_all add: retryFetch_def)
  then obtain e where r: "r = Rejected e" by (cases r) auto
  from retryFetch_no_Notify [OF rf] have nn: "filter is_Notify tr = []" .
  from assms(1,2) rf r n nn show ?thesis
    by (auto simp: fetchData_def fetch_thunk_def)
qed

theorem fetchData_failure_keeps_store_witness:
  "demo_read 3 items_AB =
     (JNull, demo_store 3 items_AB, 3,
      [Invoke, Wait 2000, Invoke, Wait 4000, Invoke,
       ConsoleError ''API call error:'' (Some (Error ''network down''))])"
proof -
  let ?h = "\<lparr>fetchFunction = flaky 3 items_AB, cacheDuration = 60000\<rparr>"
  have h: "apiHandlers (demo_store 3 items_AB) ''items'' = Some ?h"
    by (simp add: demo_store_def subscribe_def registerAPI_def new_Store_def)
  have miss: "\<not> (GET = GET \<and> cache_hit (demo_store 3 items_AB) ''items'' 1000)"
    by (simp add: cache_hit_def demo_store_def subscribe_def registerAPI_def new_Store_def)
  have fails:
    "\<forall>i<3. is_Rejected (nth_call (fetchFunction ?h (handler_arg GET JNull JUndef)) 0 i)"
    by (simp add: nth_call_def world_after_flaky) (simp add: flaky_def)
  have run: "snd (snd (demo_read 3 items_AB)) =
     (3, [Invoke, Wait 2000, Invoke, Wait 4000, Invoke,
          ConsoleError ''API call error:'' (Some (Error ''network down''))])"
    by (simp add: demo_read_def demo_store_def subscribe_def registerAPI_def new_Store_def
        fetchData_def fetch_thunk_def cache_hit_def handler_arg_def retryFetch_def
        retry_loop.simps flaky_def)
  from fetchData_failure_keeps_store [OF h miss fails, of True] run
  show ?thesis
    by (cases "demo_read 3 items_AB") (simp add: demo_read_def)
qed

text \<open>
  C7, as the claim states it, at a handler that resolves with the empty array: the
  result is empty, yet \<open>if (data)\<close> holds for every array, so the value is cached with
  a timestamp, the state is replaced, the listener is notified and the array is
  returned.
\<close>

theorem fetchData_empty_result_counterexample:
  "empty_or_null (JArr [])
   \<and> fst (demo_read 0 (JArr [])) = JArr []
   \<and> cache (demo_store 0 (JArr [])) ''items'' = None
   \<and> cache (fst (snd (demo_read 0 (JArr [])))) ''items'' = Some (JArr [])
   \<and> cacheExpiration (fst (snd (demo_read 0 (JArr [])))) ''items'' = Some 1000
   \<and> state (demo_store 0 (JArr [])) = []
   \<and> state (fst (snd (demo_read 0 (JArr [])))) = [(''items'', JArr [])]
   \<and> snd (snd (snd (demo_read 0 (JArr [])))) = [Invoke, Notify 0 [(''items'', JArr [])]]"
  by (simp add: demo_read_def demo_store_def subscribe_def registerAPI_def new_Store_def
      fetchData_def fetch_thunk_def cache_hit_def handler_arg_def retryFetch_def
      retry_loop.simps flaky_def setState_def notifyListeners_def obj_spread_def Let_def)

text \<open>
  C7, amended. A handler is registered for \<open>key\<close>, the call is not served from the
  cache, and the retried handler call resolves with a falsy result (\<open>null\<close>,
  \<open>undefined\<close>, \<open>false\<close>, \<open>0\<close> or the empty string). Then \<open>fetchData\<close> returns
  that result, the store is unchanged (no cache write, no state mutation) and no
  listener is notified.
\<close>

theorem fetchData_falsy_result:
  assumes "apiHandlers s key = Some h"
    and "\<not> (m = GET \<and> cache_hit s key now)"
    and "retryFetch (fetchFunction h (handler_arg m payload urlPath)) 3 1000 w
           = (Resolved data, w', tr)"
    and "\<not> truthy data"
  shows "fetchData s key m payload urlPath keepCache now w = (data, s, w', tr)
       \<and> filter is_Notify tr = []"
  using assms retryFetch_no_Notify [OF assms(3)]
  by (auto simp: fetchData_def fetch_thunk_def)

theorem fetchData_falsy_result_witness:
  "demo_read 0 JNull = (JNull, demo_store 0 JNull, 1, [Invoke])
   \<and> demo_read 0 (JStr []) = (JStr [], demo_store 0 (JStr []), 1, [Invoke])"
proof -
  have h: "apiHandlers (demo_store 0 d) ''items''
             = Some \<lparr>fetchFunction = flaky 0 d, cacheDuration = 60000\<rparr>" for d
    by (simp add: demo_store_def subscribe_def registerAPI_def new_Store_def)
  have miss: "\<not> (GET = GET \<and> cache_hit (demo_store 0 d) ''items'' 1000)" for d
    by (simp add: cache_hit_def demo_store_def subscribe_def registerAPI_def new_Store_def)
  have run: "retryFetch
               (fetchFunction \<lparr>fetchFunction = flaky 0 d, cacheDuration = 60000\<rparr>
                  (handler_arg GET JNull JUndef)) 3 1000 0
             = (Resolved d, 1, [Invoke])" for d
    by (simp add: retryFetch_def retry_loop.simps flaky_def)
  have f1: "\<not> truthy JNull" and f2: "\<not> truthy (JStr [])" by simp_all
  from fetchData_falsy_result [OF h miss run f1, of True]
    fetchData_falsy_result [OF h miss run f2, of True]
  show ?thesis by (simp add: demo_read_def)
qed

subsection \<open>What each operation does to the cache and the registry\<close>

lemma fetchData_fields:
  assumes "fetchData s key m payload urlPath keepCache now w = (r, s', w', tr)"
  shows "apiHandlers s' = apiHandlers s \<and> listeners s' = listeners s \<and>
         (cacheExpiration s' = cacheExpiration s \<and> cache s' = cache s
          \<or> keepCache \<and> fetch_succeeds s key m payload urlPath now w
            \<and> apiHandlers s key \<noteq> None
            \<and> cacheExpiration s' = (cacheExpiration s)(key \<mapsto> now)
            \<and> (\<exists>d. cache s' = (cache s)(key \<mapsto> d)))"
proof (cases "apiHandlers s key")
  case None
  have "fetch_thunk s key (handler_arg m payload urlPath) = not_a_function"
    by (simp add: fetch_thunk_def None)
  with assms retryFetch_not_a_function [of w] show ?thesis
    by (auto simp: fetchData_def split: if_splits)
next
  case (Some h)
  have th: "fetch_thunk s key (handler_arg m payload urlPath)
            = fetchFunction h (handler_arg m payload urlPath)"
    by (simp add: fetch_thunk_def Some)
  show ?thesis
  proof (rule fetchData_cases [of m s key now payload urlPath keepCache w])
    fix data w'' tr' and s1 :: "'a Store"
    assume "\<not> (m = GET \<and> cache_hit s key now)"
      and "retryFetch (fetch_thunk s key (handler_arg m payload urlPath)) 3 1000 w
            = (Resolved data, w'', tr')"
      and "s1 = (if keepCache then
               s\<lparr>cache := (cache s)(key \<mapsto> data),
                 cacheExpiration := (cacheExpiration s)(key \<mapsto> now)\<rparr>
             else s)"
      and "fetchData s key m payload urlPath keepCache now w =
         (data, fst (setState s1 [(key, data)]), w'', tr' @ fst (snd (setState s1 [(key, data)])))"
    with assms Some th show ?thesis
      by (cases keepCache) (auto simp: fetch_succeeds_def)
  next
    fix data w'' tr' err and s1 :: "'a Store"
    assume "\<not> (m = GET \<and> cache_hit s key now)"
      and "retryFetch (fetch_thunk s key (handler_arg m payload urlPath)) 3 1000 w
            = (Resolved data, w'', tr')"
      and "s1 = (if keepCache then
               s\<lparr>cache := (cache s)(key \<mapsto> data),
                 cacheExpiration := (cacheExpiration s)(key \<mapsto> now)\<rparr>
             else s)"
      and "fetchData s key m payload urlPath keepCache now w =
         (JNull, fst (setState s1 [(key, data)]), w'',
          tr' @ fst (snd (setState s1 [(key, data)]))
              @ [ConsoleError ''API call error:'' (Some err)])"
    with assms Some th show ?thesis
      by (cases keepCache) (auto simp: fetch_succeeds_def)
  qed (use assms in auto)
qed

lemma deleteItem_fields:
  "cache (fst (deleteItem s key idKey deleteItemId)) = cache s"
  "cacheExpiration (fst (deleteItem s key idKey deleteItemId)) = cacheExpiration s"
  "apiHandlers (fst (deleteItem s key idKey deleteItemId)) = apiHandlers s"
  by (auto simp: deleteItem_def Let_def split: sum.splits)

lemma map_of_obj_set: "map_of (obj_set k v fs) = (map_of fs)(k \<mapsto> v)"
  by (induction fs) (auto simp: fun_eq_iff)


lemma obj_spread_single: "obj_spread fs [(k, v)] = obj_set k v fs"
  by (simp add: obj_spread_def)

lemma is_Array_truthy: "is_Array v \<Longrightarrow> truthy v"
  by (cases v) auto

text \<open>The four ways \<open>editItem\<close> returns.\<close>

lemma editItem_cases:
  obtains
    (invalid) "\<not> is_Array (obj_get (state s) key)"
      "editItem s key idKey eid flds =
         (\<lparr>status = False, message = ''No valid array found for key: '' @ key\<rparr>, s,
          [ConsoleError (''No valid array found in store for key: '' @ key) None])"
  | (threw) e where "is_Array (obj_get (state s) key)"
      "editItem s key idKey eid flds =
         (\<lparr>status = False, message = ''Error editing item: '' @ error_String e\<rparr>, s, [])"
  | (listener_threw) ys e where "is_Array (obj_get (state s) key)"
      "map_result (edit_item idKey eid flds) (elements (obj_get (state s) key)) = Inr ys"
      "snd (notify_all (listeners s) (obj_set key (JArr ys) (state s))) = Some e"
      "editItem s key idKey eid flds =
         (\<lparr>status = False, message = ''Error editing item: '' @ error_String e\<rparr>,
          s\<lparr>state := obj_set key (JArr ys) (state s)\<rparr>,
          fst (notify_all (listeners s) (obj_set key (JArr ys) (state s))))"
  | (edited) ys where "is_Array (obj_get (state s) key)"
      "map_result (edit_item idKey eid flds) (elements (obj_get (state s) key)) = Inr ys"
      "snd (notify_all (listeners s) (obj_set key (JArr ys) (state s))) = None"
      "editItem s key idKey eid flds =
         (\<lparr>status = True, message = ''Item edited successfully''\<rparr>,
          s\<lparr>state := obj_set key (JArr ys) (state s), cache := (cache s)(key \<mapsto> JArr ys)\<rparr>,
          fst (notify_all (listeners s) (obj_set key (JArr ys) (state s))))"
proof (cases "is_Array (obj_get (state s) key)")
  case False
  then have "editItem s key idKey eid flds =
         (\<lparr>status = False, message = ''No valid array found for key: '' @ key\<rparr>, s,
          [ConsoleError (''No valid array found in store for key: '' @ key) None])"
    by (simp add: editItem_def)
  with False invalid show ?thesis by blast
next
  case arr: True
  show ?thesis
  proof (cases "map_result (edit_item idKey eid flds) (elements (obj_get (state s) key))")
    case (Inl e)
    with arr have "editItem s key idKey eid flds =
         (\<lparr>status = False, message = ''Error editing item: '' @ error_String e\<rparr>, s, [])"
      by (simp add: editItem_def is_Array_truthy)
    with arr threw show ?thesis by blast
  next
    case (Inr ys)
    obtain tr thrown where
      na: "notify_all (listeners s) (obj_set key (JArr ys) (state s)) = (tr, thrown)"
      by (cases "notify_all (listeners s) (obj_set key (JArr ys) (state s))") auto
    show ?thesis
    proof (cases thrown)
      case None
      with arr Inr na have "editItem s key idKey eid flds =
         (\<lparr>status = True, message = ''Item edited successfully''\<rparr>,
          s\<lparr>state := obj_set key (JArr ys) (state s), cache := (cache s)(key \<mapsto> JArr ys)\<rparr>,
          fst (notify_all (listeners s) (obj_set key (JArr ys) (state s))))"
        by (simp add: editItem_def is_Array_truthy setState_def Let_def notifyListeners_def
            obj_spread_single)
      moreover from na None
      have "snd (notify_all (listeners s) (obj_set key (JArr ys) (state s))) = None" by simp
      ultimately show ?thesis using arr Inr edited by blast
    next
      case (Some e)
      with arr Inr na have "editItem s key idKey eid flds =
         (\<lparr>status = False, message = ''Error editing item: '' @ error_String e\<rparr>,
          s\<lparr>state := obj_set key (JArr ys) (state s)\<rparr>,
          fst (notify_all (listeners s) (obj_set key (JArr ys) (state s))))"
        by (simp add: editItem_def is_Array_truthy setState_def Let_def notifyListeners_def
            obj_spread_single)
      moreover from na Some
      have "snd (notify_all (listeners s) (obj_set key (JArr ys) (state s))) = Some e" by simp
      ultimately show ?thesis using arr Inr listener_threw by blast
    qed
  qed
qed

lemma editItem_fields:
  "cacheExpiration (fst (snd (editItem s key idKey eid flds))) = cacheExpiration s"
  "apiHandlers (fst (snd (editItem s key idKey eid flds))) = apiHandlers s"
  "dom (cache (fst (snd (editItem s key idKey eid flds)))) =
     (if status (fst (editItem s key idKey eid flds))
      then insert key (dom (cache s)) else dom (cache s))"
  by (rule editItem_cases [of s key idKey eid flds]; simp)+

subsection \<open>Invariants of the reachable stores\<close>

lemma clearCache_fields:
  "apiHandlers (clearCache s k) = apiHandlers s"
  "cacheExpiration (clearCache s k) x = Some t \<Longrightarrow> cacheExpiration s x = Some t"
  "cache (clearCache s k) x = Some v \<Longrightarrow> cache s x = Some v"
  "cacheExpiration (clearCache s k) x = Some t \<Longrightarrow> cache s x = Some v
     \<Longrightarrow> cache (clearCache s k) x = Some v"
  by (auto simp: clearCache_def split: option.splits if_splits)

lemma registerAPI_fields:
  "cache (fst (registerAPI s key f d)) = cache s"
  "cacheExpiration (fst (registerAPI s key f d)) = cacheExpiration s"
  "apiHandlers s x = Some h \<Longrightarrow> \<exists>h'. apiHandlers (fst (registerAPI s key f d)) x = Some h'"
  by (auto simp: registerAPI_def split: option.splits)

text \<open>
  In a reachable store a timestamp is recorded only for a key that has completed a
  successful fetch with \<open>keepCache\<close>, that has a handler and that has a cached value;
  a value is cached only for such a key or for a key that \<open>editItem\<close> has edited.
\<close>

lemma reachable_invariant:
  assumes "reachable s F E"
  shows "(\<forall>x t. cacheExpiration s x = Some t \<longrightarrow>
            x \<in> F \<and> (\<exists>h. apiHandlers s x = Some h) \<and> (\<exists>v. cache s x = Some v))
       \<and> (\<forall>x v. cache s x = Some v \<longrightarrow> x \<in> F \<or> x \<in> E)"
  using assms
proof (induction rule: reachable.induct)
  case r_new
  show ?case by (simp add: new_Store_def)
next
  case (r_createStore s F E initialState)
  then show ?case by (simp add: createStore_def)
next
  case (r_setState s F E newState)
  then show ?case by simp
next
  case (r_clearCache s F E k)
  show ?case
  proof (intro conjI allI impI)
    fix x t assume t: "cacheExpiration (clearCache s k) x = Some t"
    from clearCache_fields(2) [OF t] r_clearCache.IH
    show "x \<in> F" and "\<exists>h. apiHandlers (clearCache s k) x = Some h"
      by (simp_all add: clearCache_fields(1))
    from clearCache_fields(2) [OF t] r_clearCache.IH
    obtain v where "cache s x = Some v" by blast
    from clearCache_fields(4) [OF t this]
    show "\<exists>v. cache (clearCache s k) x = Some v" by blast
  next
    fix x v assume "cache (clearCache s k) x = Some v"
    from clearCache_fields(3) [OF this] r_clearCache.IH
    show "x \<in> F \<or> x \<in> E" by blast
  qed
next
  case (r_subscribe s F E callback)
  then show ?case by (simp add: subscribe_def)
next
  case (r_unsubscribe s F E callback)
  then show ?case by (simp add: unsubscribe_def)
next
  case (r_registerAPI s F E key f d)
  with registerAPI_fields(3) [of s _ _ key f d] show ?case
    unfolding registerAPI_fields(1,2) by blast
next
  case (r_fetchData s F E key m payload urlPath keepCache now w)
  obtain r s' w' tr where
    fd: "fetchData s key m payload urlPath keepCache now w = (r, s', w', tr)"
    by (cases "fetchData s key m payload urlPath keepCache now w") auto
  from fetchData_fields [OF fd]
  have h: "apiHandlers s' = apiHandlers s"
    and c: "cacheExpiration s' = cacheExpiration s \<and> cache s' = cache s
          \<or> keepCache \<and> fetch_succeeds s key m payload urlPath now w
            \<and> apiHandlers s key \<noteq> None
            \<and> cacheExpiration s' = (cacheExpiration s)(key \<mapsto> now)
            \<and> (\<exists>d. cache s' = (cache s)(key \<mapsto> d))"
    by simp_all
  from c show ?case
  proof
    assume "cacheExpiration s' = cacheExpiration s \<and> cache s' = cache s"
    with r_fetchData.IH h fd show ?thesis by auto
  next
    assume "keepCache \<and> fetch_succeeds s key m payload urlPath now w
            \<and> apiHandlers s key \<noteq> None
            \<and> cacheExpiration s' = (cacheExpiration s)(key \<mapsto> now)
            \<and> (\<exists>d. cache s' = (cache s)(key \<mapsto> d))"
    with r_fetchData.IH h fd show ?thesis by auto blast
  qed
next
  case (r_deleteItem s F E key idKey deleteItemId)
  then show ?case by (simp add: deleteItem_fields)
next
  case (r_editItem s F E key idKey editItemId updatedFields)
  show ?case
  proof (rule editItem_cases [of s key idKey editItemId updatedFields])
    assume "editItem s key idKey editItemId updatedFields =
         (\<lparr>status = False, message = ''No valid array found for key: '' @ key\<rparr>, s,
          [ConsoleError (''No valid array found in store for key: '' @ key) None])"
    with r_editItem.IH show ?thesis by simp
  next
    fix e assume "editItem s key idKey editItemId updatedFields =
         (\<lparr>status = False, message = ''Error editing item: '' @ error_String e\<rparr>, s, [])"
    with r_editItem.IH show ?thesis by simp
  next
    fix ys e assume "editItem s key idKey editItemId updatedFields =
         (\<lparr>status = False, message = ''Error editing item: '' @ error_String e\<rparr>,
          s\<lparr>state := obj_set key (JArr ys) (state s)\<rparr>,
          fst (notify_all (listeners s) (obj_set key (JArr ys) (state s))))"
    with r_editItem.IH show ?thesis by simp
  next
    fix ys assume "editItem s key idKey editItemId updatedFields =
         (\<lparr>status = True, message = ''Item edited successfully''\<rparr>,
          s\<lparr>state := obj_set key (JArr ys) (state s), cache := (cache s)(key \<mapsto> JArr ys)\<rparr>,
          fst (notify_all (listeners s) (obj_set key (JArr ys) (state s))))"
    with r_editItem.IH show ?thesis by auto
  qed
qed

text \<open>
  C8. In every reachable store, for a key with no registered handler and for any
  method, \<open>fetchData\<close> returns \<open>null\<close>, the store and the world are unchanged (no
  state mutation, no cache write), and no listener is notified. When the key names
  nothing that the plain object \<open>apiHandlers\<close> inherits, the only event is the
  \<open>No API registered\<close> line; when it does (\<open>constructor\<close>, \<open>toString\<close>, ...), the
  call of the missing function is tried three times and the \<open>TypeError\<close> is reported.
\<close>

theorem fetchData_no_handler:
  assumes "reachable s F E" and "apiHandlers s key = None"
  shows "fst (fetchData s key m payload urlPath keepCache now w) = JNull
       \<and> fst (snd (fetchData s key m payload urlPath keepCache now w)) = s
       \<and> fst (snd (snd (fetchData s key m payload urlPath keepCache now w))) = w
       \<and> filter is_Notify (snd (snd (snd (fetchData s key m payload urlPath keepCache now w))))
           = []
       \<and> snd (snd (snd (fetchData s key m payload urlPath keepCache now w)))
           = (if inherited s key
              then [Invoke, Wait 2000, Invoke, Wait 4000, Invoke,
                    ConsoleError ''API call error:''
                      (Some (TypeError ''fetchFunction is not a function''))]
              else [ConsoleError (''No API registered for key: '' @ key) None])"
proof -
  from reachable_invariant [OF assms(1)] assms(2)
  have "cacheExpiration s key = None" by (cases "cacheExpiration s key") auto
  then have miss: "\<not> cache_hit s key now" by (simp add: cache_hit_def)
  have th: "fetch_thunk s key (handler_arg m payload urlPath) = not_a_function"
    by (simp add: fetch_thunk_def assms(2))
  from miss assms(2) th retryFetch_not_a_function [of w] show ?thesis
    by (simp add: fetchData_def)
qed

lemma reachable_demo_store: "reachable (demo_store n d) {} {}"
  unfolding demo_store_def
  by (rule r_subscribe, rule r_registerAPI, rule r_new)

theorem fetchData_no_handler_witness:
  "fetchData (demo_store 0 items_AB) ''users'' POST (JNum 1) JUndef True 1000 0
     = (JNull, demo_store 0 items_AB, 0,
        [ConsoleError (''No API registered for key: '' @ ''users'') None])
   \<and> fetchData (demo_store 0 items_AB) ''constructor'' GET JNull JUndef True 1000 0
     = (JNull, demo_store 0 items_AB, 0,
        [Invoke, Wait 2000, Invoke, Wait 4000, Invoke,
         ConsoleError ''API call error:''
           (Some (TypeError ''fetchFunction is not a function''))])"
proof -
  have u: "apiHandlers (demo_store 0 items_AB) ''users'' = None"
    and c: "apiHandlers (demo_store 0 items_AB) ''constructor'' = None"
    by (simp_all add: demo_store_def subscribe_def registerAPI_def new_Store_def)
  have iu: "\<not> inherited (demo_store 0 items_AB) ''users''"
    and ic: "inherited (demo_store 0 items_AB) ''constructor''"
    by (simp_all add: inherited_def object_prototype_names_def demo_store_def subscribe_def
        registerAPI_def new_Store_def)
  from fetchData_no_handler [OF reachable_demo_store u, of POST "JNum 1" JUndef True 1000 0]
    fetchData_no_handler [OF reachable_demo_store c, of GET JNull JUndef True 1000 0] iu ic
  show ?thesis
    by (cases "fetchData (demo_store 0 items_AB) ''users'' POST (JNum 1) JUndef True 1000 0";
        cases "fetchData (demo_store 0 items_AB) ''constructor'' GET JNull JUndef True 1000 0")
       simp
qed

subsection \<open>Cache entries and the local edit\<close>

lemma local_edit_value:
  "local_edit =
     (\<lparr>status = True, message = ''Item edited successfully''\<rparr>,
      local_store\<lparr>state := [(''items'', items_XB)],
                   cache := (cache local_store)(''items'' \<mapsto> items_XB)\<rparr>,
      [Notify 0 [(''items'', items_XB)]])"
  by (simp add: local_edit_def local_store_def createStore_def demo_store_def subscribe_def
      registerAPI_def new_Store_def editItem_def edit_item_def obj_get_def items_AB_def
      items_XB_def show_int_def show_nat.simps setState_def notifyListeners_def
      obj_spread_def Let_def)

lemma reachable_local_edit: "reachable (fst (snd local_edit)) {} {''items''}"
proof -
  have "reachable local_store {} {}"
    unfolding local_store_def by (rule r_createStore, rule reachable_demo_store)
  from r_editItem [OF this, of "''items''" "''id''" "JNum 5" "JObj [(''name'', JStr ''X'')]"]
  show ?thesis
    unfolding local_edit_def [symmetric] by (simp add: local_edit_value)
qed

text \<open>
  A cached value exists only for a key that has completed a successful fetch with
  \<open>keepCache\<close> true or that the local edit has edited; a timestamp, and with it a
  cached value, only for the former.
\<close>

lemma cache_value_fetched_or_edited:
  assumes "reachable s F E"
  shows "(cache s key \<noteq> None \<longrightarrow> key \<in> F \<or> key \<in> E)
       \<and> (cacheExpiration s key \<noteq> None \<longrightarrow> key \<in> F \<and> cache s key \<noteq> None)"
  using reachable_invariant [OF assms] by auto

text \<open>
  C6. A cache entry is, for a key, the cached value together with the timestamp of its
  fetch. In every reachable store a cache entry exists for a key only if that key has
  completed at least one successful fetch with \<open>keepCache\<close> true. The reachable stores
  are closed under every store operation; in particular the property holds of the store
  after a local edit, with the same set of fetched keys, and of the store after a call
  of \<open>fetchData\<close>, with the key added when the call completes such a fetch.
\<close>

theorem cache_entry_only_after_fetch:
  assumes "reachable s F E"
  shows "(has_cache_entry s key \<longrightarrow> key \<in> F)
       \<and> (has_cache_entry (fst (snd (editItem s k idKey eid flds))) key \<longrightarrow> key \<in> F)
       \<and> (has_cache_entry (fst (snd (fetchData s k m payload urlPath keepCache now w))) key
            \<longrightarrow> key \<in> (if keepCache \<and> fetch_succeeds s k m payload urlPath now w
                       then insert k F else F))"
proof (intro conjI impI)
  assume "has_cache_entry s key"
  with reachable_invariant [OF assms] show "key \<in> F"
    by (auto simp: has_cache_entry_def)
next
  assume "has_cache_entry (fst (snd (editItem s k idKey eid flds))) key"
  with reachable_invariant [OF r_editItem [OF assms, of k idKey eid flds]]
  show "key \<in> F"
    by (auto simp: has_cache_entry_def)
next
  assume "has_cache_entry (fst (snd (fetchData s k m payload urlPath keepCache now w))) key"
  with reachable_invariant [OF r_fetchData [OF assms, of k m payload urlPath keepCache now w]]
  show "key \<in> (if keepCache \<and> fetch_succeeds s k m payload urlPath now w
                then insert k F else F)"
    by (auto simp: has_cache_entry_def)
qed

lemma demo_read_value:
  "demo_read 0 items_AB =
     (items_AB,
      (demo_store 0 items_AB)
        \<lparr>cache := (cache (demo_store 0 items_AB))(''items'' \<mapsto> items_AB),
         cacheExpiration := (cacheExpiration (demo_store 0 items_AB))(''items'' \<mapsto> 1000),
         state := [(''items'', items_AB)]\<rparr>,
      1, [Invoke, Notify 0 [(''items'', items_AB)]])"
  by (simp add: demo_read_def demo_store_def subscribe_def registerAPI_def new_Store_def
      fetchData_def fetch_thunk_def cache_hit_def handler_arg_def retryFetch_def
      retry_loop.simps flaky_def items_AB_def setState_def notifyListeners_def
      obj_spread_def Let_def)

lemma reachable_demo_read: "reachable (fst (snd (demo_read 0 items_AB))) {''items''} {}"
proof -
  have ok: "fetch_succeeds (demo_store 0 items_AB) ''items'' GET JNull JUndef 1000 0"
    by (simp add: fetch_succeeds_def demo_store_def subscribe_def registerAPI_def
        new_Store_def cache_hit_def handler_arg_def retryFetch_def retry_loop.simps flaky_def)
  from r_fetchData [OF reachable_demo_store, of 0 items_AB "''items''" GET JNull JUndef True
      1000 0] ok
  show ?thesis by (simp add: demo_read_def)
qed

theorem cache_entry_only_after_fetch_witness:
  "has_cache_entry (fst (snd (demo_read 0 items_AB))) ''items''
   \<and> ''items'' \<in> {''items''}
   \<and> cache (fst (snd local_edit)) ''items'' = Some items_XB
   \<and> cacheExpiration (fst (snd local_edit)) ''items'' = None"
proof -
  have e: "has_cache_entry (fst (snd (demo_read 0 items_AB))) ''items''"
    by (simp add: has_cache_entry_def demo_read_value)
  from cache_entry_only_after_fetch [OF reachable_demo_read, of "''items''"] e
  have "''items'' \<in> {''items''}" by blast
  moreover have "cache (fst (snd local_edit)) ''items'' = Some items_XB"
    and "cacheExpiration (fst (snd local_edit)) ''items'' = None"
    by (simp_all add: local_edit_value local_store_def createStore_def demo_store_def
        subscribe_def registerAPI_def new_Store_def)
  ultimately show ?thesis using e by simp
qed

lemma fetchData_silent_is_hit:
  assumes "snd (snd (snd (fetchData s key m payload urlPath keepCache now w))) = []"
  shows "m = GET \<and> cache_hit s key now"
proof (rule ccontr)
  assume miss: "\<not> (m = GET \<and> cache_hit s key now)"
  show False
  proof (cases "apiHandlers s key = None \<and> \<not> inherited s key")
    case True
    with miss assms show False by (auto simp: fetchData_def)
  next
    case False
    then have "apiHandlers s key \<noteq> None \<or> inherited s key" by auto
    from fetchData_miss_invokes [OF this miss, of payload urlPath keepCache w] assms
    show False by simp
  qed
qed

text \<open>
  C10. In a reachable store: a call of \<open>fetchData\<close> that is served from the cache (it
  returns with no event at all: no invocation, no error line, no notification) finds a
  timestamp recorded for the key; a timestamp is recorded only for a key that has
  completed a successful fetch with \<open>keepCache\<close> true; hence after a local edit of a
  key that has never completed such a fetch, whatever the edit wrote to the cache, a
  \<open>GET\<close> of that key is not a cache hit: it invokes the fetch function through
  \<open>retryFetch\<close>, or it reports the missing handler and returns \<open>null\<close>.
\<close>

theorem local_edit_never_a_cache_hit:
  assumes "reachable s F E"
  shows "(snd (snd (snd (fetchData s key m payload urlPath keepCache now w))) = []
            \<longrightarrow> cacheExpiration s key \<noteq> None)
       \<and> (cacheExpiration s key \<noteq> None \<longrightarrow> key \<in> F)
       \<and> (key \<notin> F \<longrightarrow>
            \<not> cache_hit (fst (snd (editItem s key idKey eid flds))) key now
            \<and> (1 \<le> invocations (snd (snd (snd
                   (fetchData (fst (snd (editItem s key idKey eid flds))) key GET
                      payload urlPath keepCache now w))))
               \<or> fetchData (fst (snd (editItem s key idKey eid flds))) key GET
                    payload urlPath keepCache now w
                  = (JNull, fst (snd (editItem s key idKey eid flds)), w,
                     [ConsoleError (''No API registered for key: '' @ key) None])))"
proof (intro conjI impI)
  assume "snd (snd (snd (fetchData s key m payload urlPath keepCache now w))) = []"
  from fetchData_silent_is_hit [OF this]
  show "cacheExpiration s key \<noteq> None"
    by (auto simp: cache_hit_def split: option.splits)
next
  assume "cacheExpiration s key \<noteq> None"
  with reachable_invariant [OF assms] show "key \<in> F" by auto
next
  let ?s' = "fst (snd (editItem s key idKey eid flds))"
  assume nf: "key \<notin> F"
  have "reachable ?s' F (if status (fst (editItem s key idKey eid flds)) then insert key E else E)"
    by (rule r_editItem [OF assms])
  from reachable_invariant [OF this] nf have "cacheExpiration ?s' key = None"
    by (cases "cacheExpiration ?s' key") auto
  then show miss: "\<not> cache_hit ?s' key now"
    by (simp add: cache_hit_def)
  show "1 \<le> invocations (snd (snd (snd
            (fetchData ?s' key GET payload urlPath keepCache now w))))
        \<or> fetchData ?s' key GET payload urlPath keepCache now w
           = (JNull, ?s', w, [ConsoleError (''No API registered for key: '' @ key) None])"
  proof (cases "apiHandlers ?s' key = None \<and> \<not> inherited ?s' key")
    case True
    with miss show ?thesis by (simp add: fetchData_def)
  next
    case False
    then have api: "apiHandlers ?s' key \<noteq> None \<or> inherited ?s' key" by auto
    from miss have "\<not> (GET = GET \<and> cache_hit ?s' key now)" by simp
    from fetchData_miss_invokes [OF api this] show ?thesis by blast
  qed
qed

theorem local_edit_never_a_cache_hit_witness:
  "cache (fst (snd local_edit)) ''items'' = Some items_XB
   \<and> cacheExpiration (fst (snd local_edit)) ''items'' = None
   \<and> fst (fetchData (fst (snd local_edit)) ''items'' GET JNull JUndef True 1000 0) = JArr []
   \<and> 1 \<le> invocations (snd (snd (snd
            (fetchData (fst (snd local_edit)) ''items'' GET JNull JUndef True 1000 0))))"
proof -
  have "reachable local_store {} {}"
    unfolding local_store_def by (rule r_createStore, rule reachable_demo_store)
  from local_edit_never_a_cache_hit [OF this, of "''items''" GET JNull JUndef True 1000 0
      "''id''" "JNum 5" "JObj [(''name'', JStr ''X'')]"]
  have "1 \<le> invocations (snd (snd (snd
            (fetchData (fst (snd local_edit)) ''items'' GET JNull JUndef True 1000 0))))
        \<or> fetchData (fst (snd local_edit)) ''items'' GET JNull JUndef True 1000 0
           = (JNull, fst (snd local_edit), 0,
              [ConsoleError (''No API registered for key: '' @ ''items'') None])"
    unfolding local_edit_def [symmetric] by simp
  moreover have "fst (fetchData (fst (snd local_edit)) ''items'' GET JNull JUndef True 1000 0)
                 = JArr []"
    by (simp add: local_edit_value local_store_def createStore_def demo_store_def
        subscribe_def registerAPI_def new_Store_def fetchData_def fetch_thunk_def
        cache_hit_def handler_arg_def retryFetch_def retry_loop.simps flaky_def
        setState_def notifyListeners_def obj_spread_def Let_def)
  ultimately show ?thesis
    by (auto simp: local_edit_value local_store_def createStore_def demo_store_def
        subscribe_def registerAPI_def new_Store_def)
qed

subsection \<open>The local edit\<close>

text \<open>The spread is a shallow merge: a field of the second object wins.\<close>

lemma map_of_obj_spread:
  "distinct (map fst b) \<Longrightarrow> map_of (obj_spread a b) = map_of a ++ map_of b"
proof (induction b arbitrary: a)
  case Nil
  show ?case by (simp add: obj_spread_def)
next
  case (Cons p b)
  obtain k v where p: "p = (k, v)" by (cases p) auto
  with Cons.prems have fresh: "map_of b k = None" and d: "distinct (map fst b)"
    by (simp_all add: map_of_eq_None_iff)
  have "map_of (obj_spread a (p # b)) = map_of (obj_spread (obj_set k v a) b)"
    by (simp add: obj_spread_def p)
  also have "\<dots> = (map_of a)(k \<mapsto> v) ++ map_of b"
    by (simp only: Cons.IH [OF d] map_of_obj_set)
  also have "\<dots> = map_of a ++ map_of (p # b)"
    using fresh by (auto simp: p fun_eq_iff map_add_def split: option.splits)
  finally show ?case .
qed

lemma obj_get_obj_spread:
  "distinct (map fst b) \<Longrightarrow>
   obj_get (obj_spread a b) f = (if f \<in> fst ` set b then obj_get b f else obj_get a f)"
proof -
  assume d: "distinct (map fst b)"
  have "f \<in> fst ` set b \<longleftrightarrow> map_of b f \<noteq> None"
    by (simp add: map_of_eq_None_iff)
  then show ?thesis
    by (cases "map_of b f") (simp_all add: obj_get_def map_of_obj_spread [OF d] map_add_def)
qed





end
